theory Spec2Isabelle
  imports Main
begin

section \<open>String operations of the host language\<close>

text \<open>
  The middleware works on JavaScript strings. A string is modelled as a \<^typ>\<open>string\<close>;
  one \<^typ>\<open>char\<close> stands for one code unit in the range 0..255 (Basic Latin and Latin-1);
  text with code units above 255 is outside the model.
  The operations below are the library calls the source makes:
  \<^verbatim>\<open>String.prototype.includes\<close>, \<^verbatim>\<open>toLowerCase\<close>, \<^verbatim>\<open>trim\<close>,
  \<^verbatim>\<open>Array.prototype.join\<close> and \<^verbatim>\<open>String.prototype.match\<close> for the two regular
  expressions of \<^verbatim>\<open>afterModel\<close>.
\<close>

fun startsWith :: "string \<Rightarrow> string \<Rightarrow> bool" where
  "startsWith s [] = True"
| "startsWith [] (p # ps) = False"
| "startsWith (c # cs) (p # ps) = (c = p \<and> startsWith cs ps)"

text \<open>\<^verbatim>\<open>s.includes(sub)\<close>: \<open>sub\<close> occurs in \<open>s\<close> as a contiguous run.\<close>

fun includes_str :: "string \<Rightarrow> string \<Rightarrow> bool" where
  "includes_str [] sub = (sub = [])"
| "includes_str (c # cs) sub = (startsWith (c # cs) sub \<or> includes_str cs sub)"

text \<open>
  \<^verbatim>\<open>toLowerCase\<close> on the Latin-1 range: \<open>A..Z\<close> (65..90) and the accented capitals
  192..222 except the multiplication sign 215 move up by 32; every other code unit stays.
\<close>

definition toLowerChar :: "char \<Rightarrow> char" where
  "toLowerChar c =
     (let n = (of_char c :: nat)
      in if (65 \<le> n \<and> n \<le> 90) \<or> (192 \<le> n \<and> n \<le> 222 \<and> n \<noteq> 215)
         then char_of (n + 32) else c)"

definition toLowerCase :: "string \<Rightarrow> string" where
  "toLowerCase s = map toLowerChar s"

text \<open>
  \<^verbatim>\<open>trim\<close> removes white space and line terminators at both ends. In the range 0..255
  these are TAB, LF, VT, FF, CR, SPACE and NO-BREAK SPACE.
\<close>

definition isWhiteSpace :: "char \<Rightarrow> bool" where
  "isWhiteSpace c = ((of_char c :: nat) \<in> {9, 10, 11, 12, 13, 32, 160})"

definition trim :: "string \<Rightarrow> string" where
  "trim s = rev (dropWhile isWhiteSpace (rev (dropWhile isWhiteSpace s)))"

fun join :: "string \<Rightarrow> string list \<Rightarrow> string" where
  "join sep [] = []"
| "join sep [x] = x"
| "join sep (x # y # ys) = x @ sep @ join sep (y # ys)"

text \<open>
  A template literal prints an absent value as the text \<open>undefined\<close>
  (\<^verbatim>\<open>`${taskMatch?.[2]}`\<close>, \<^verbatim>\<open>`${lastToolCall?.name}`\<close>).
\<close>

definition interpolate :: "string option \<Rightarrow> string" where
  "interpolate v = (case v of None \<Rightarrow> ''undefined'' | Some s \<Rightarrow> s)"

subsection \<open>The two regular expressions\<close>

text \<open>
  \<^verbatim>\<open>/NEW TASK CONFIRMED: (task_\d+) - "([^"]+)"/\<close> and
  \<^verbatim>\<open>/TASK FEEDBACK: "([^"]+)"/\<close> consist of literals and of greedy \<open>+\<close> runs over a
  character class, each run followed by a literal character outside its class (a space
  after \<open>\d+\<close>, a double quote after \<open>[^"]+\<close>). A shorter run would have to be followed by a
  character of the class, so backtracking never finds a match the longest run misses:
  at one start position the match is the longest run, or there is none.
  \<^verbatim>\<open>match\<close> without the \<open>g\<close> flag returns the match at the leftmost start position.
\<close>

fun stripPrefix :: "string \<Rightarrow> string \<Rightarrow> string option" where
  "stripPrefix [] s = Some s"
| "stripPrefix (p # ps) [] = None"
| "stripPrefix (p # ps) (c # cs) = (if p = c then stripPrefix ps cs else None)"

definition isDigit :: "char \<Rightarrow> bool" where
  "isDigit c = (c \<in> set ''0123456789'')"

definition notQuote :: "char \<Rightarrow> bool" where
  \<open>notQuote c = (c \<noteq> CHR ''"'')\<close>

text \<open>The capture groups (1, 2) of the confirmation pattern matched at the start of \<open>s\<close>.\<close>

definition taskMatchAt :: "string \<Rightarrow> (string \<times> string) option" where
  \<open>taskMatchAt s =
     (case stripPrefix ''NEW TASK CONFIRMED: task_'' s of
        None \<Rightarrow> None
      | Some r1 \<Rightarrow>
          (let ds = takeWhile isDigit r1 in
           if ds = [] then None
           else (case stripPrefix '' - "'' (dropWhile isDigit r1) of
                   None \<Rightarrow> None
                 | Some r2 \<Rightarrow>
                     (let label = takeWhile notQuote r2 in
                      if label = [] then None
                      else (case dropWhile notQuote r2 of
                              [] \<Rightarrow> None
                            | q # rest \<Rightarrow> Some (''task_'' @ ds, label))))))\<close>

text \<open>The capture group 1 of the feedback pattern matched at the start of \<open>s\<close>.\<close>

definition feedbackMatchAt :: "string \<Rightarrow> string option" where
  \<open>feedbackMatchAt s =
     (case stripPrefix ''TASK FEEDBACK: "'' s of
        None \<Rightarrow> None
      | Some r \<Rightarrow>
          (let feedback = takeWhile notQuote r in
           if feedback = [] then None
           else (case dropWhile notQuote r of
                   [] \<Rightarrow> None
                 | q # rest \<Rightarrow> Some feedback)))\<close>

fun regexSearch :: "(string \<Rightarrow> 'a option) \<Rightarrow> string \<Rightarrow> 'a option" where
  "regexSearch m [] = m []"
| "regexSearch m (c # cs) =
     (case m (c # cs) of Some g \<Rightarrow> Some g | None \<Rightarrow> regexSearch m cs)"

definition taskMatch :: "string \<Rightarrow> (string \<times> string) option" where
  "taskMatch s = regexSearch taskMatchAt s"

definition feedbackMatch :: "string \<Rightarrow> string option" where
  "feedbackMatch s = regexSearch feedbackMatchAt s"

section \<open>Session state, tool calls and requests\<close>

text \<open>
  \<^verbatim>\<open>stateSchema\<close>: \<open>contextHistory\<close> is an array of strings that defaults to the empty
  array, \<open>currentTask\<close> is an optional string. The hooks read the history through the
  fallbacks \<^verbatim>\<open>state.contextHistory ?? []\<close> and \<^verbatim>\<open>state.contextHistory || []\<close>, so a missing
  history is the empty list here.
\<close>

record State =
  contextHistory :: "string list"
  currentTask :: "string option"

text \<open>An entry of \<^verbatim>\<open>runtime.toolCalls\<close>: the tool's name and its result, which may be absent.\<close>

record ToolCall =
  name :: string
  result :: "string option"

record Runtime =
  toolCalls :: "ToolCall list"

text \<open>\<^verbatim>\<open>runtime.toolCalls.at(-1)\<close>: the last element, absent on the empty array.\<close>

definition at_last :: "'a list \<Rightarrow> 'a option" where
  "at_last xs = (if xs = [] then None else Some (last xs))"

text \<open>
  The object a hook returns is a partial state: \<open>contextHistory\<close> is present in every
  object \<^verbatim>\<open>afterModel\<close> returns; the key \<open>currentTask\<close> is absent (\<open>None\<close>), or present
  holding a string or \<^verbatim>\<open>undefined\<close> (\<open>Some (Some t)\<close>, \<open>Some None\<close>).
\<close>

record StateUpdate =
  upd_contextHistory :: "string list"
  upd_currentTask :: "string option option"

datatype ToolChoice = ToolChoiceAuto | ToolChoiceNone | ToolChoiceRequired

text \<open>
  The system prompt of a request is a plain text, or the result of
  \<^verbatim>\<open>format(classificationPromptTemplate, task, history, focus)\<close>, kept as its three arguments.
\<close>

datatype Prompt = PlainText string | ClassificationPrompt string string string

record Request =
  tools :: "string list"
  systemPrompt :: Prompt
  toolChoice :: ToolChoice

section \<open>The middleware hooks\<close>

text \<open>
  The hooks of \<^verbatim>\<open>stateClassificationMiddleware\<close>. The repository holds a second copy of the
  middleware, with debugging output, whose \<^verbatim>\<open>isUserSatisfied\<close> has no history test and whose
  reset looks at the last history entry; the model follows the copy without the debugging
  output, in which the satisfaction test starts with \<^verbatim>\<open>currentHistory.length > 0\<close>.
\<close>

text \<open>
  \<^verbatim>\<open>isUserSatisfied\<close> of \<^verbatim>\<open>modifyModelRequest\<close>: there is a history, the last tool call is
  \<open>attempt_completion\<close>, and its result in lower case includes \<open>y\<close>. An absent call or an
  absent result makes the optional chain \<^verbatim>\<open>undefined\<close>, which is falsy.
\<close>

definition isUserSatisfied :: "State \<Rightarrow> Runtime \<Rightarrow> bool" where
  "isUserSatisfied state runtime =
     (let currentHistory = contextHistory state;
          lastToolCall = at_last (toolCalls runtime)
      in length currentHistory > 0 \<and>
         (case lastToolCall of
            None \<Rightarrow> False
          | Some tc \<Rightarrow>
              name tc = ''attempt_completion'' \<and>
              (case result tc of
                 None \<Rightarrow> False
               | Some r \<Rightarrow> includes_str (toLowerCase r) ''y'')))"

text \<open>The arrow U+2192 of the separator has no \<^typ>\<open>char\<close>; it is written as its UTF-8 bytes.\<close>

definition historySeparator :: string where
  "historySeparator = [CHR '' '', CHR 0xE2, CHR 0x86, CHR 0x92, CHR '' '']"

definition modifyModelRequest :: "Request \<Rightarrow> State \<Rightarrow> Runtime \<Rightarrow> Request" where
  \<open>modifyModelRequest request state runtime =
     (let currentHistory = contextHistory state;
          currentTask = State.currentTask state
      in if isUserSatisfied state runtime
         then request
                \<lparr>tools := [],
                 systemPrompt :=
                   PlainText ''Task has been completed successfully. No further actions needed.'',
                 toolChoice := ToolChoiceNone\<rparr>
         else request
                \<lparr>systemPrompt :=
                   ClassificationPrompt
                     (case currentTask of
                        None \<Rightarrow> ''No active task''
                      | Some t \<Rightarrow> if t = [] then ''No active task'' else t)
                     (join historySeparator currentHistory)
                     (case currentTask of
                        None \<Rightarrow> ''START: Define a new task first''
                      | Some t \<Rightarrow>
                          if t = [] then ''START: Define a new task first''
                          else ''FOCUS: You are working on "'' @ t @
                               ''". If it mentions a specific file, work with that file directly!''),
                 toolChoice := ToolChoiceRequired\<rparr>)\<close>

text \<open>
  The \<open>new_task\<close> block of \<^verbatim>\<open>afterModel\<close>: \<open>Some\<close> is the object it returns, \<open>None\<close> is
  falling out of the block. The confirmation branch is entered by the substring test alone
  and reads group 2 through an optional chain, so without a match the task is
  \<^verbatim>\<open>undefined\<close>; the feedback branch returns only when the pattern matched.
\<close>

definition newTaskBlock :: "State \<Rightarrow> string \<Rightarrow> StateUpdate option" where
  "newTaskBlock state res =
     (if includes_str res ''NEW TASK CONFIRMED:''
      then (let task = map_option snd (taskMatch res)
            in Some \<lparr>upd_contextHistory =
                        contextHistory state @ [''Started task: '' @ interpolate task],
                      upd_currentTask = Some task\<rparr>)
      else if includes_str res ''TASK FEEDBACK:''
      then (case feedbackMatch res of
              Some feedback \<Rightarrow>
                Some \<lparr>upd_contextHistory =
                        contextHistory state @ [''Task feedback: '' @ feedback],
                      upd_currentTask = None\<rparr>
            | None \<Rightarrow> None)
      else None)"

definition hasError :: "string \<Rightarrow> bool" where
  "hasError res = (includes_str res ''Error:'' \<or> includes_str res ''does not exist'')"

definition afterModel :: "State \<Rightarrow> Runtime \<Rightarrow> StateUpdate" where
  "afterModel state runtime =
     (let lastToolCall = at_last (toolCalls runtime);
          lastName = map_option name lastToolCall;
          res = (case lastToolCall of
                   None \<Rightarrow> ''''
                 | Some tc \<Rightarrow> (case result tc of None \<Rightarrow> '''' | Some r \<Rightarrow> r))
      in case (if lastName = Some ''new_task'' then newTaskBlock state res else None) of
           Some u \<Rightarrow> u
         | None \<Rightarrow>
             if lastName = Some ''attempt_completion'' \<and> includes_str res ''y''
             then \<lparr>upd_contextHistory = [], upd_currentTask = Some None\<rparr>
             else \<lparr>upd_contextHistory =
                     contextHistory state @
                       [interpolate lastName @
                          (if hasError res then '': encountered error''
                           else '': completed successfully'')],
                   upd_currentTask = None\<rparr>)"

section \<open>State merge and the orchestrator loop\<close>

text \<open>
  Modelled from the spec: the merge of a hook's returned object into the Session State is
  done by the agent framework, which is not part of the repository. Following the spec
  (the satisfied completion "resets Session State to {contextHistory: [], currentTask:
  undefined}", a feedback outcome "leaves currentTask unchanged"), a key that is present in
  the returned object replaces the field, also when it holds \<^verbatim>\<open>undefined\<close>, and an absent
  key leaves the field as it was.
\<close>

definition applyUpdate :: "State \<Rightarrow> StateUpdate \<Rightarrow> State" where
  "applyUpdate state u =
     \<lparr>contextHistory = upd_contextHistory u,
      currentTask = (case upd_currentTask u of None \<Rightarrow> currentTask state | Some v \<Rightarrow> v)\<rparr>"

definition emptyState :: State where
  "emptyState = \<lparr>contextHistory = [], currentTask = None\<rparr>"

text \<open>
  Modelled from the spec: \<open>transition(priorState, outcome) \<rightarrow> (nextState, directive)\<close> of
  section 4.3. The outcome is the last entry of \<^verbatim>\<open>runtime.toolCalls\<close>; the next state is
  what \<^verbatim>\<open>afterModel\<close> returns, merged into the prior state; the directive is the request
  \<^verbatim>\<open>modifyModelRequest\<close> returns for the prior state.
\<close>

definition nextState :: "State \<Rightarrow> ToolCall \<Rightarrow> State" where
  "nextState priorState outcome =
     applyUpdate priorState (afterModel priorState \<lparr>toolCalls = [outcome]\<rparr>)"

definition transition :: "Request \<Rightarrow> State \<Rightarrow> ToolCall \<Rightarrow> State \<times> Request" where
  "transition request priorState outcome =
     (nextState priorState outcome,
      modifyModelRequest request priorState \<lparr>toolCalls = [outcome]\<rparr>)"

text \<open>
  Modelled from the spec: the directive of a terminating transition offers no action and
  does not force action use (section 4.3, case 1).
\<close>

definition signalsTermination :: "Request \<Rightarrow> bool" where
  "signalsTermination directive =
     (tools directive = [] \<and> toolChoice directive = ToolChoiceNone)"

text \<open>
  Modelled from the spec: the orchestrator loop of section 4.5, which the framework runs.
  The reasoning engine, the actions and the human are external; what they produce is the
  list of outcomes, one per iteration. The loop stops when a transition signals
  termination, fails when the iteration bound (\<^verbatim>\<open>recursionLimit\<close>) is used up, and is
  still waiting when no further outcome has been supplied.
\<close>

datatype RunResult = Finished State | LoopBoundExceeded State | AwaitingOutcome State

fun run :: "nat \<Rightarrow> Request \<Rightarrow> State \<Rightarrow> ToolCall list \<Rightarrow> RunResult" where
  "run 0 request s outcomes = LoopBoundExceeded s"
| "run (Suc n) request s [] = AwaitingOutcome s"
| "run (Suc n) request s (outcome # rest) =
     (case transition request s outcome of
        (s', directive) \<Rightarrow>
          if signalsTermination directive then Finished s' else run n request s' rest)"

text \<open>
  Modelled from the spec: the state reached by a sequence of transition steps (section 3,
  "reachable" states), whether or not the loop would have stopped on the way.
\<close>

fun steps :: "State \<Rightarrow> ToolCall list \<Rightarrow> State" where
  "steps s [] = s"
| "steps s (outcome # rest) = steps (nextState s outcome) rest"

text \<open>
  Modelled from the spec: the states the loop of section 4.5 produces, one for each
  transition it applies before it stops.
\<close>

fun trace :: "nat \<Rightarrow> Request \<Rightarrow> State \<Rightarrow> ToolCall list \<Rightarrow> State list" where
  "trace 0 request s outcomes = []"
| "trace (Suc n) request s [] = []"
| "trace (Suc n) request s (outcome # rest) =
     (case transition request s outcome of
        (s', directive) \<Rightarrow>
          s' # (if signalsTermination directive then [] else trace n request s' rest))"

section \<open>Tool categories\<close>

text \<open>
  The categories are the four groups in which \<^verbatim>\<open>tools.ts\<close> declares its tools (task
  management, question, action, completion); a name that is not declared has none.
\<close>

datatype Category = NEW_TASK | QUESTION | ACTION | COMPLETION

definition categoryOf :: "string \<Rightarrow> Category option" where
  "categoryOf actionIdentifier =
     (if actionIdentifier = ''new_task'' then Some NEW_TASK
      else if actionIdentifier = ''ask_for_clarification'' then Some QUESTION
      else if actionIdentifier \<in> set [''read_file'', ''list_files'', ''search_files'', ''write_to_file'']
      then Some ACTION
      else if actionIdentifier = ''attempt_completion'' then Some COMPLETION
      else None)"

section \<open>The suspension protocol\<close>

text \<open>
  The \<^verbatim>\<open>do ... while\<close> loop of \<^verbatim>\<open>runAgent\<close> that reads the human's reply to an interrupt
  with the given label. Each call of \<^verbatim>\<open>rl.question\<close> takes the next reply typed by the
  human; the loop may ask for ever, so the replies are a list and the result is \<open>None\<close>
  when they run out before one is accepted. The result is the \<^verbatim>\<open>response\<close> passed to
  \<^verbatim>\<open>Command({resume: response})\<close>, with the replies not yet read.
\<close>

fun promptResponse :: "string \<Rightarrow> string list \<Rightarrow> (string \<times> string list) option" where
  "promptResponse label [] = None"
| "promptResponse label (response # replies) =
     (if trim response = []
      then if includes_str label ''y/N'' then Some (''N'', replies)
           else promptResponse label replies
      else Some (response, replies))"

section \<open>The task invariant in the spec's words\<close>

text \<open>
  Section 3 of the spec: \<open>currentTask\<close> is set if and only if a \<open>new_task\<close> confirmation has
  been accepted and no completion reset has occurred since. \<open>spec_taskSet\<close> follows these
  words over a sequence of outcomes: an accepted confirmation is a \<open>new_task\<close> result that
  matches the confirmation pattern, a completion reset is an \<open>attempt_completion\<close> outcome
  that clears the state. A malformed confirmation is a \<open>new_task\<close> result that contains
  \<open>NEW TASK CONFIRMED:\<close> without matching the pattern.
\<close>

definition acceptedConfirmation :: "ToolCall \<Rightarrow> bool" where
  "acceptedConfirmation oc =
     (name oc = ''new_task'' \<and>
      (case result oc of None \<Rightarrow> False | Some r \<Rightarrow> taskMatch r \<noteq> None))"

definition completionReset :: "ToolCall \<Rightarrow> bool" where
  "completionReset oc =
     (name oc = ''attempt_completion'' \<and>
      (case result oc of None \<Rightarrow> False | Some r \<Rightarrow> includes_str r ''y''))"

definition malformedConfirmation :: "ToolCall \<Rightarrow> bool" where
  "malformedConfirmation oc =
     (name oc = ''new_task'' \<and>
      (case result oc of
         None \<Rightarrow> False
       | Some r \<Rightarrow> includes_str r ''NEW TASK CONFIRMED:'' \<and> taskMatch r = None))"

fun spec_taskSet :: "bool \<Rightarrow> ToolCall list \<Rightarrow> bool" where
  "spec_taskSet active [] = active"
| "spec_taskSet active (oc # rest) =
     spec_taskSet
       (if acceptedConfirmation oc then True
        else if completionReset oc then False
        else active)
       rest"

section \<open>Facts about the string operations\<close>

lemma startsWith_iff: "startsWith s p \<longleftrightarrow> (\<exists>q. s = p @ q)"
  by (induction s p rule: startsWith.induct) auto

text \<open>\<open>includes_str\<close> is containment as a contiguous run, as \<^verbatim>\<open>includes\<close> is specified.\<close>

lemma includes_str_iff: "includes_str s sub \<longleftrightarrow> (\<exists>p q. s = p @ sub @ q)"
proof (induction s)
  case Nil
  then show ?case by auto
next
  case (Cons c cs)
  show ?case
  proof
    assume "includes_str (c # cs) sub"
    then consider "startsWith (c # cs) sub" | "includes_str cs sub" by auto
    then show "\<exists>p q. c # cs = p @ sub @ q"
    proof cases
      case 1
      then obtain q where "c # cs = sub @ q" by (auto simp: startsWith_iff)
      then have "c # cs = [] @ sub @ q" by simp
      then show ?thesis by blast
    next
      case 2
      then obtain p q where "cs = p @ sub @ q" using Cons.IH by auto
      then have "c # cs = (c # p) @ sub @ q" by simp
      then show ?thesis by blast
    qed
  next
    assume "\<exists>p q. c # cs = p @ sub @ q"
    then obtain p q where pq: "c # cs = p @ sub @ q" by blast
    show "includes_str (c # cs) sub"
    proof (cases p)
      case Nil
      then have "startsWith (c # cs) sub" using pq by (auto simp: startsWith_iff)
      then show ?thesis by simp
    next
      case (Cons a p')
      then have "cs = p' @ sub @ q" using pq by simp
      then have "includes_str cs sub" using Cons.IH by blast
      then show ?thesis by simp
    qed
  qed
qed

lemma includes_str_single: "includes_str s [c] \<longleftrightarrow> c \<in> set s"
  by (induction s) auto

lemma of_char_toLowerChar:
  "(of_char (toLowerChar c) :: nat) =
     (if (65 \<le> (of_char c :: nat) \<and> (of_char c :: nat) \<le> 90) \<or>
         (192 \<le> (of_char c :: nat) \<and> (of_char c :: nat) \<le> 222 \<and> (of_char c :: nat) \<noteq> 215)
      then of_char c + 32 else of_char c)"
  by (auto simp: toLowerChar_def Let_def)

text \<open>Only \<open>y\<close> and \<open>Y\<close> become \<open>y\<close> in lower case.\<close>

lemma toLowerChar_y: "toLowerChar c = CHR ''y'' \<longleftrightarrow> c = CHR ''y'' \<or> c = CHR ''Y''"
proof -
  have "toLowerChar c = CHR ''y'' \<longleftrightarrow> (of_char (toLowerChar c) :: nat) = of_char (CHR ''y'')"
    by (simp only: of_char_eq_iff)
  also have "\<dots> \<longleftrightarrow> (of_char c :: nat) = 121 \<or> (of_char c :: nat) = 89"
    by (auto simp: of_char_toLowerChar)
  also have "\<dots> \<longleftrightarrow> (of_char c :: nat) = of_char (CHR ''y'') \<or> (of_char c :: nat) = of_char (CHR ''Y'')"
    by simp
  also have "\<dots> \<longleftrightarrow> c = CHR ''y'' \<or> c = CHR ''Y''"
    by (simp only: of_char_eq_iff)
  finally show ?thesis .
qed

lemma affirmative_iff:
  "includes_str (toLowerCase r) ''y'' \<longleftrightarrow> CHR ''y'' \<in> set r \<or> CHR ''Y'' \<in> set r"
proof -
  have "includes_str (toLowerCase r) ''y'' \<longleftrightarrow> (\<exists>c \<in> set r. toLowerChar c = CHR ''y'')"
    by (auto simp: includes_str_single toLowerCase_def intro: rev_image_eqI)
  also have "\<dots> \<longleftrightarrow> (\<exists>c \<in> set r. c = CHR ''y'' \<or> c = CHR ''Y'')"
    by (simp only: toLowerChar_y)
  also have "\<dots> \<longleftrightarrow> CHR ''y'' \<in> set r \<or> CHR ''Y'' \<in> set r"
    by blast
  finally show ?thesis .
qed

lemma dropWhile_all_iff: "(\<forall>x \<in> set (dropWhile P s). P x) \<longleftrightarrow> (\<forall>x \<in> set s. P x)"
  by (induction s) auto

text \<open>The trimmed string is empty exactly when every character is white space.\<close>

lemma trim_empty_iff: "trim s = [] \<longleftrightarrow> (\<forall>c \<in> set s. isWhiteSpace c)"
  by (simp add: trim_def dropWhile_eq_Nil_conv dropWhile_all_iff)

lemma taskMatch_example:
  \<open>taskMatch ''NEW TASK CONFIRMED: task_7 - "fix bug"'' = Some (''task_7'', ''fix bug'')\<close>
  by (simp add: taskMatch_def taskMatchAt_def isDigit_def notQuote_def)

lemma feedbackMatch_example:
  \<open>feedbackMatch ''TASK FEEDBACK: "not that task"'' = Some ''not that task''\<close>
  by (simp add: feedbackMatch_def feedbackMatchAt_def notQuote_def)

subsection \<open>The regular expressions\<close>

lemma stripPrefix_iff: "stripPrefix p s = Some r \<longleftrightarrow> s = p @ r"
  by (induction p s rule: stripPrefix.induct) auto

lemma regexSearch_SomeD:
  "regexSearch m s = Some g \<Longrightarrow> \<exists>p q. s = p @ q \<and> m q = Some g"
proof (induction s)
  case Nil
  then show ?case by simp
next
  case (Cons c cs)
  show ?case
  proof (cases "m (c # cs)")
    case None
    with Cons.prems have "regexSearch m cs = Some g" by simp
    from Cons.IH [OF this] obtain p q where "cs = p @ q" "m q = Some g" by blast
    then have "c # cs = (c # p) @ q \<and> m q = Some g" by simp
    then show ?thesis by blast
  next
    case (Some a)
    with Cons.prems have "m (c # cs) = Some g" by simp
    then have "c # cs = [] @ (c # cs) \<and> m (c # cs) = Some g" by simp
    then show ?thesis by blast
  qed
qed

lemma regexSearch_None_iff:
  "regexSearch m s = None \<longleftrightarrow> (\<forall>p q. s = p @ q \<longrightarrow> m q = None)"
proof (induction s)
  case Nil
  then show ?case by simp
next
  case (Cons c cs)
  show ?case
  proof
    assume a: "regexSearch m (c # cs) = None"
    then have 1: "m (c # cs) = None" and 2: "regexSearch m cs = None"
      by (auto split: option.splits)
    show "\<forall>p q. c # cs = p @ q \<longrightarrow> m q = None"
    proof (intro allI impI)
      fix p q assume pq: "c # cs = p @ q"
      show "m q = None"
      proof (cases p)
        case Nil
        with pq 1 show ?thesis by simp
      next
        case (Cons a p')
        with pq have "cs = p' @ q" by simp
        with 2 Cons.IH show ?thesis by blast
      qed
    qed
  next
    assume a: "\<forall>p q. c # cs = p @ q \<longrightarrow> m q = None"
    have 1: "m (c # cs) = None" using a [rule_format, of "[]" "c # cs"] by simp
    have "\<forall>p q. cs = p @ q \<longrightarrow> m q = None"
    proof (intro allI impI)
      fix p q assume "cs = p @ q"
      then have "c # cs = (c # p) @ q" by simp
      with a show "m q = None" by blast
    qed
    with Cons.IH have "regexSearch m cs = None" by blast
    with 1 show "regexSearch m (c # cs) = None" by simp
  qed
qed

lemma dropWhile_notQuote_Cons:
  \<open>dropWhile notQuote r = q # rest \<Longrightarrow> q = CHR ''"''\<close>
  using hd_dropWhile [of notQuote r] by (auto simp: notQuote_def)

text \<open>What the confirmation pattern matches at a start position, said without the matcher.\<close>

lemma taskMatchAt_iff:
  \<open>taskMatchAt s = Some (g1, g2) \<longleftrightarrow>
     (\<exists>ds rest. s = ''NEW TASK CONFIRMED: task_'' @ ds @ '' - "'' @ g2 @ ''"'' @ rest \<and>
        ds \<noteq> [] \<and> (\<forall>c \<in> set ds. isDigit c) \<and>
        g2 \<noteq> [] \<and> (\<forall>c \<in> set g2. c \<noteq> CHR ''"'') \<and>
        g1 = ''task_'' @ ds)\<close>
proof
  assume a: "taskMatchAt s = Some (g1, g2)"
  then obtain r1 where r1: "stripPrefix ''NEW TASK CONFIRMED: task_'' s = Some r1"
    by (auto simp: taskMatchAt_def split: option.splits)
  define ds where "ds = takeWhile isDigit r1"
  from a r1 have ds: "ds \<noteq> []"
    by (auto simp: taskMatchAt_def ds_def Let_def split: option.splits if_splits)
  from a r1 ds obtain r2 where r2: \<open>stripPrefix '' - "'' (dropWhile isDigit r1) = Some r2\<close>
    by (auto simp: taskMatchAt_def ds_def Let_def split: option.splits if_splits)
  from a r1 ds r2 have g2: "g2 = takeWhile notQuote r2" "g2 \<noteq> []" and g1: "g1 = ''task_'' @ ds"
    by (auto simp: taskMatchAt_def ds_def Let_def split: option.splits if_splits list.splits)
  from a r1 ds r2 obtain q rest where q: "dropWhile notQuote r2 = q # rest"
    by (auto simp: taskMatchAt_def ds_def Let_def split: option.splits if_splits list.splits)
  then have qq: \<open>q = CHR ''"''\<close> by (rule dropWhile_notQuote_Cons)
  have "r2 = takeWhile notQuote r2 @ dropWhile notQuote r2" by simp
  then have e2: \<open>r2 = g2 @ ''"'' @ rest\<close> using q qq g2 by simp
  have "r1 = takeWhile isDigit r1 @ dropWhile isDigit r1" by simp
  moreover from r2 have \<open>dropWhile isDigit r1 = '' - "'' @ r2\<close> by (simp only: stripPrefix_iff)
  ultimately have e1: \<open>r1 = ds @ '' - "'' @ r2\<close> by (simp add: ds_def)
  from r1 have "s = ''NEW TASK CONFIRMED: task_'' @ r1" by (simp only: stripPrefix_iff)
  with e1 e2 have \<open>s = ''NEW TASK CONFIRMED: task_'' @ ds @ '' - "'' @ g2 @ ''"'' @ rest\<close>
    by simp
  moreover have "\<forall>c \<in> set ds. isDigit c" by (auto simp: ds_def dest: set_takeWhileD)
  moreover have \<open>\<forall>c \<in> set g2. c \<noteq> CHR ''"''\<close>
    using g2(1) by (auto simp: notQuote_def dest: set_takeWhileD)
  ultimately show \<open>\<exists>ds rest. s = ''NEW TASK CONFIRMED: task_'' @ ds @ '' - "'' @ g2 @ ''"'' @ rest \<and>
        ds \<noteq> [] \<and> (\<forall>c \<in> set ds. isDigit c) \<and>
        g2 \<noteq> [] \<and> (\<forall>c \<in> set g2. c \<noteq> CHR ''"'') \<and>
        g1 = ''task_'' @ ds\<close>
    using ds g2(2) g1 by blast
next
  assume \<open>\<exists>ds rest. s = ''NEW TASK CONFIRMED: task_'' @ ds @ '' - "'' @ g2 @ ''"'' @ rest \<and>
        ds \<noteq> [] \<and> (\<forall>c \<in> set ds. isDigit c) \<and>
        g2 \<noteq> [] \<and> (\<forall>c \<in> set g2. c \<noteq> CHR ''"'') \<and>
        g1 = ''task_'' @ ds\<close>
  then obtain ds rest where
    s: \<open>s = ''NEW TASK CONFIRMED: task_'' @ ds @ '' - "'' @ g2 @ ''"'' @ rest\<close>
    and ds: "ds \<noteq> []" "\<forall>c \<in> set ds. isDigit c"
    and g2: "g2 \<noteq> []" \<open>\<forall>c \<in> set g2. c \<noteq> CHR ''"''\<close>
    and g1: "g1 = ''task_'' @ ds" by blast
  have p1: \<open>stripPrefix ''NEW TASK CONFIRMED: task_'' s = Some (ds @ '' - "'' @ g2 @ ''"'' @ rest)\<close>
    unfolding stripPrefix_iff s by simp
  have nd: "\<not> isDigit (CHR '' '')" by (simp add: isDigit_def)
  have t1: \<open>takeWhile isDigit (ds @ '' - "'' @ g2 @ ''"'' @ rest) = ds\<close>
    using ds(2) nd by (simp add: takeWhile_append2)
  have d1: \<open>dropWhile isDigit (ds @ '' - "'' @ g2 @ ''"'' @ rest) = '' - "'' @ g2 @ ''"'' @ rest\<close>
    using ds(2) nd by (simp add: dropWhile_append2)
  have p2: \<open>stripPrefix '' - "'' ('' - "'' @ g2 @ ''"'' @ rest) = Some (g2 @ ''"'' @ rest)\<close>
    unfolding stripPrefix_iff by simp
  have nq: \<open>\<not> notQuote (CHR ''"'')\<close> by (simp add: notQuote_def)
  have g2': "\<forall>c \<in> set g2. notQuote c" using g2(2) by (simp add: notQuote_def)
  have t2: \<open>takeWhile notQuote (g2 @ ''"'' @ rest) = g2\<close>
    using g2' nq by (simp add: takeWhile_append2)
  have d2: \<open>dropWhile notQuote (g2 @ ''"'' @ rest) = CHR ''"'' # rest\<close>
    using g2' nq by (simp add: dropWhile_append2)
  show "taskMatchAt s = Some (g1, g2)"
    unfolding taskMatchAt_def p1 option.case Let_def t1 d1 p2 t2 d2
    using ds(1) g2(1) g1 by simp
qed

lemma taskMatch_includes:
  "taskMatch r = Some g \<Longrightarrow> includes_str r ''NEW TASK CONFIRMED:''"
proof -
  assume "taskMatch r = Some g"
  then obtain p q where pq: "r = p @ q" "taskMatchAt q = Some g"
    unfolding taskMatch_def by (blast dest: regexSearch_SomeD)
  from pq(2) obtain r1 where "stripPrefix ''NEW TASK CONFIRMED: task_'' q = Some r1"
    by (auto simp: taskMatchAt_def split: option.splits)
  then have "q = ''NEW TASK CONFIRMED: task_'' @ r1" by (simp only: stripPrefix_iff)
  then have "r = p @ ''NEW TASK CONFIRMED:'' @ ('' task_'' @ r1)" using pq(1) by simp
  then show ?thesis unfolding includes_str_iff by blast
qed


text \<open>What the feedback pattern matches at a start position.\<close>

lemma feedbackMatchAt_iff:
  \<open>feedbackMatchAt s = Some g \<longleftrightarrow>
     (\<exists>rest. s = ''TASK FEEDBACK: "'' @ g @ ''"'' @ rest \<and>
        g \<noteq> [] \<and> (\<forall>c \<in> set g. c \<noteq> CHR ''"''))\<close>
proof
  assume a: "feedbackMatchAt s = Some g"
  then obtain r where r: \<open>stripPrefix ''TASK FEEDBACK: "'' s = Some r\<close>
    by (auto simp: feedbackMatchAt_def split: option.splits)
  from a r have g: "g = takeWhile notQuote r" "g \<noteq> []"
    by (auto simp: feedbackMatchAt_def Let_def split: option.splits if_splits list.splits)
  from a r obtain q rest where q: "dropWhile notQuote r = q # rest"
    by (auto simp: feedbackMatchAt_def Let_def split: option.splits if_splits list.splits)
  then have qq: \<open>q = CHR ''"''\<close> by (rule dropWhile_notQuote_Cons)
  have "r = takeWhile notQuote r @ dropWhile notQuote r" by simp
  then have e: \<open>r = g @ ''"'' @ rest\<close> using q qq g by simp
  from r have \<open>s = ''TASK FEEDBACK: "'' @ r\<close> by (simp only: stripPrefix_iff)
  with e have \<open>s = ''TASK FEEDBACK: "'' @ g @ ''"'' @ rest\<close> by simp
  moreover have \<open>\<forall>c \<in> set g. c \<noteq> CHR ''"''\<close>
    using g(1) by (auto simp: notQuote_def dest: set_takeWhileD)
  ultimately show \<open>\<exists>rest. s = ''TASK FEEDBACK: "'' @ g @ ''"'' @ rest \<and>
        g \<noteq> [] \<and> (\<forall>c \<in> set g. c \<noteq> CHR ''"'')\<close>
    using g(2) by blast
next
  assume \<open>\<exists>rest. s = ''TASK FEEDBACK: "'' @ g @ ''"'' @ rest \<and>
        g \<noteq> [] \<and> (\<forall>c \<in> set g. c \<noteq> CHR ''"'')\<close>
  then obtain rest where s: \<open>s = ''TASK FEEDBACK: "'' @ g @ ''"'' @ rest\<close>
    and g: "g \<noteq> []" \<open>\<forall>c \<in> set g. c \<noteq> CHR ''"''\<close> by blast
  have p: \<open>stripPrefix ''TASK FEEDBACK: "'' s = Some (g @ ''"'' @ rest)\<close>
    unfolding stripPrefix_iff s by simp
  have nq: \<open>\<not> notQuote (CHR ''"'')\<close> by (simp add: notQuote_def)
  have g': "\<forall>c \<in> set g. notQuote c" using g(2) by (simp add: notQuote_def)
  have t: \<open>takeWhile notQuote (g @ ''"'' @ rest) = g\<close>
    using g' nq by (simp add: takeWhile_append2)
  have d: \<open>dropWhile notQuote (g @ ''"'' @ rest) = CHR ''"'' # rest\<close>
    using g' nq by (simp add: dropWhile_append2)
  show "feedbackMatchAt s = Some g"
    unfolding feedbackMatchAt_def p option.case Let_def t d
    using g(1) by simp
qed

text \<open>The search returns the match at the leftmost start position that has one.\<close>

lemma regexSearch_leftmost:
  "(\<And>p1 p2. p = p1 @ p2 \<Longrightarrow> p2 \<noteq> [] \<Longrightarrow> m (p2 @ q) = None) \<Longrightarrow> m q = Some g \<Longrightarrow>
   regexSearch m (p @ q) = Some g"
proof (induction p)
  case Nil
  then show ?case by (cases q) simp_all
next
  case (Cons c p)
  have "m ((c # p) @ q) = None" using Cons.prems(1) [of "[]" "c # p"] by simp
  moreover have "regexSearch m (p @ q) = Some g"
  proof (rule Cons.IH)
    fix p1 p2 assume "p = p1 @ p2" "p2 \<noteq> []"
    then have "c # p = (c # p1) @ p2" "p2 \<noteq> []" by simp_all
    then show "m (p2 @ q) = None" by (rule Cons.prems(1))
  qed (rule Cons.prems(2))
  ultimately show ?case by simp
qed

section \<open>Facts about the hooks and the loop\<close>

lemma at_last_snoc: "at_last (xs @ [x]) = Some x"
  by (simp add: at_last_def)

lemma at_last_single: "at_last [x] = Some x"
  by (simp add: at_last_def)

text \<open>The hooks look at the last tool call only.\<close>

lemma afterModel_last:
  "afterModel s \<lparr>toolCalls = calls @ [oc]\<rparr> = afterModel s \<lparr>toolCalls = [oc]\<rparr>"
  by (simp add: afterModel_def at_last_snoc at_last_single)

lemma isUserSatisfied_last_only:
  "isUserSatisfied s \<lparr>toolCalls = calls @ [oc]\<rparr> = isUserSatisfied s \<lparr>toolCalls = [oc]\<rparr>"
  by (simp add: isUserSatisfied_def at_last_snoc at_last_single)

lemma modifyModelRequest_last:
  "modifyModelRequest request s \<lparr>toolCalls = calls @ [oc]\<rparr> =
   modifyModelRequest request s \<lparr>toolCalls = [oc]\<rparr>"
  by (simp add: modifyModelRequest_def isUserSatisfied_last_only)

lemma isUserSatisfied_last:
  "isUserSatisfied s \<lparr>toolCalls = calls @ [oc]\<rparr> \<longleftrightarrow>
     contextHistory s \<noteq> [] \<and> name oc = ''attempt_completion'' \<and>
     (\<exists>r. result oc = Some r \<and> (CHR ''y'' \<in> set r \<or> CHR ''Y'' \<in> set r))"
  by (auto simp: isUserSatisfied_def at_last_snoc affirmative_iff split: option.splits)

lemma isUserSatisfied_outcome:
  "isUserSatisfied s \<lparr>toolCalls = [oc]\<rparr> \<longleftrightarrow>
     contextHistory s \<noteq> [] \<and> name oc = ''attempt_completion'' \<and>
     (\<exists>r. result oc = Some r \<and> (CHR ''y'' \<in> set r \<or> CHR ''Y'' \<in> set r))"
  using isUserSatisfied_last [of s "[]" oc] by simp

lemma not_satisfied_empty_history: "contextHistory s = [] \<Longrightarrow> \<not> isUserSatisfied s rt"
  by (simp add: isUserSatisfied_def)

lemma signalsTermination_modifyModelRequest:
  "signalsTermination (modifyModelRequest request s rt) \<longleftrightarrow> isUserSatisfied s rt"
  by (simp add: signalsTermination_def modifyModelRequest_def Let_def)

lemma signalsTermination_transition:
  "signalsTermination (snd (transition request s oc)) \<longleftrightarrow> isUserSatisfied s \<lparr>toolCalls = [oc]\<rparr>"
  by (simp add: transition_def signalsTermination_modifyModelRequest)

lemma run_step:
  "run (Suc n) request s (oc # rest) =
     (if isUserSatisfied s \<lparr>toolCalls = [oc]\<rparr> then Finished (nextState s oc)
      else run n request (nextState s oc) rest)"
  using signalsTermination_transition [of request s oc]
  by (simp add: transition_def)

lemma trace_step:
  "trace (Suc n) request s (oc # rest) =
     nextState s oc #
       (if isUserSatisfied s \<lparr>toolCalls = [oc]\<rparr> then []
        else trace n request (nextState s oc) rest)"
  using signalsTermination_transition [of request s oc]
  by (simp add: transition_def)

lemma nextState_completion_y:
  "CHR ''y'' \<in> set r \<Longrightarrow>
   nextState s \<lparr>name = ''attempt_completion'', result = Some r\<rparr> = emptyState"
  by (simp add: nextState_def afterModel_def at_last_single applyUpdate_def emptyState_def
      includes_str_single)

text \<open>A run that finishes stopped at an outcome for which the user was satisfied.\<close>

lemma run_Finished_only_if:
  "run n request s outs = Finished s' \<Longrightarrow>
   \<exists>pre oc post. outs = pre @ oc # post \<and>
      isUserSatisfied (steps s pre) \<lparr>toolCalls = [oc]\<rparr> \<and>
      s' = nextState (steps s pre) oc"
proof (induction outs arbitrary: n s)
  case Nil
  then show ?case by (cases n) simp_all
next
  case (Cons outcome rest)
  from Cons.prems obtain m where n: "n = Suc m" by (cases n) simp_all
  show ?case
  proof (cases "isUserSatisfied s \<lparr>toolCalls = [outcome]\<rparr>")
    case True
    with Cons.prems n have "s' = nextState s outcome" by (simp add: run_step del: run.simps)
    with True have "outcome # rest = [] @ outcome # rest \<and>
        isUserSatisfied (steps s []) \<lparr>toolCalls = [outcome]\<rparr> \<and> s' = nextState (steps s []) outcome"
      by simp
    then show ?thesis by blast
  next
    case False
    with Cons.prems n have "run m request (nextState s outcome) rest = Finished s'"
      by (simp add: run_step del: run.simps)
    from Cons.IH [OF this] obtain pre oc post where p: "rest = pre @ oc # post"
      "isUserSatisfied (steps (nextState s outcome) pre) \<lparr>toolCalls = [oc]\<rparr>"
      "s' = nextState (steps (nextState s outcome) pre) oc" by blast
    then have "outcome # rest = (outcome # pre) @ oc # post \<and>
      isUserSatisfied (steps s (outcome # pre)) \<lparr>toolCalls = [oc]\<rparr> \<and>
      s' = nextState (steps s (outcome # pre)) oc" by simp
    then show ?thesis by blast
  qed
qed

text \<open>From an empty history, answering \<open>y\<close> to completions again and again never finishes.\<close>

lemma run_yes_empty_history:
  "contextHistory s = [] \<Longrightarrow>
   run n request s (replicate k \<lparr>name = ''attempt_completion'', result = Some ''y''\<rparr>) \<noteq> Finished s'"
proof (induction k arbitrary: n s)
  case 0
  then show ?case by (cases n) simp_all
next
  case (Suc k)
  show ?case
  proof (cases n)
    case 0
    then show ?thesis by simp
  next
    case (Suc m)
    have "contextHistory (nextState s \<lparr>name = ''attempt_completion'', result = Some ''y''\<rparr>) = []"
      by (simp add: nextState_completion_y emptyState_def)
    from Suc.IH [OF this] show ?thesis
      using Suc Suc.prems by (simp add: run_step not_satisfied_empty_history del: run.simps)
  qed
qed

text \<open>The branches of \<^verbatim>\<open>afterModel\<close>, one lemma each.\<close>

lemma confirmation_sets_task:
  "includes_str r ''NEW TASK CONFIRMED:'' \<Longrightarrow> taskMatch r = Some (tid, label) \<Longrightarrow>
   nextState s \<lparr>name = ''new_task'', result = Some r\<rparr> =
     \<lparr>contextHistory = contextHistory s @ [''Started task: '' @ label],
      currentTask = Some label\<rparr>"
  by (simp add: nextState_def afterModel_def at_last_single newTaskBlock_def interpolate_def
      applyUpdate_def)

lemma malformed_confirmation:
  "includes_str r ''NEW TASK CONFIRMED:'' \<Longrightarrow> taskMatch r = None \<Longrightarrow>
   nextState s \<lparr>name = ''new_task'', result = Some r\<rparr> =
     \<lparr>contextHistory = contextHistory s @ [''Started task: undefined''],
      currentTask = None\<rparr>"
  by (simp add: nextState_def afterModel_def at_last_single newTaskBlock_def interpolate_def
      applyUpdate_def)

lemma feedback_appends:
  "\<not> includes_str r ''NEW TASK CONFIRMED:'' \<Longrightarrow> includes_str r ''TASK FEEDBACK:'' \<Longrightarrow>
   feedbackMatch r = Some feedback \<Longrightarrow>
   nextState s \<lparr>name = ''new_task'', result = Some r\<rparr> =
     \<lparr>contextHistory = contextHistory s @ [''Task feedback: '' @ feedback],
      currentTask = currentTask s\<rparr>"
  by (simp add: nextState_def afterModel_def at_last_single newTaskBlock_def applyUpdate_def)

lemma new_task_fall_through:
  "\<not> includes_str r ''NEW TASK CONFIRMED:'' \<Longrightarrow> feedbackMatch r = None \<Longrightarrow>
   nextState s \<lparr>name = ''new_task'', result = Some r\<rparr> =
     \<lparr>contextHistory = contextHistory s @
        [''new_task'' @ (if includes_str r ''Error:'' \<or> includes_str r ''does not exist''
              then '': encountered error'' else '': completed successfully'')],
      currentTask = currentTask s\<rparr>"
  by (simp add: nextState_def afterModel_def at_last_single newTaskBlock_def interpolate_def
      applyUpdate_def hasError_def)

lemma generic_entry:
  "n \<noteq> ''new_task'' \<Longrightarrow> n \<noteq> ''attempt_completion'' \<Longrightarrow>
   nextState s \<lparr>name = n, result = Some r\<rparr> =
     \<lparr>contextHistory = contextHistory s @
        [n @ (if includes_str r ''Error:'' \<or> includes_str r ''does not exist''
              then '': encountered error'' else '': completed successfully'')],
      currentTask = currentTask s\<rparr>"
  by (simp add: nextState_def afterModel_def at_last_single interpolate_def applyUpdate_def
      hasError_def)

text \<open>
  Every action and question tool gets the generic note, marked as an error exactly when
  the result holds one of the two markers.
\<close>

lemma action_question_entry:
  "categoryOf n = Some ACTION \<or> categoryOf n = Some QUESTION \<Longrightarrow>
   nextState s \<lparr>name = n, result = Some r\<rparr> =
     \<lparr>contextHistory = contextHistory s @
        [n @ (if includes_str r ''Error:'' \<or> includes_str r ''does not exist''
              then '': encountered error'' else '': completed successfully'')],
      currentTask = currentTask s\<rparr>"
proof -
  assume "categoryOf n = Some ACTION \<or> categoryOf n = Some QUESTION"
  then have "n \<noteq> ''new_task''" "n \<noteq> ''attempt_completion''"
    by (auto simp: categoryOf_def)
  then show ?thesis by (rule generic_entry)
qed

section \<open>History and task along a sequence of outcomes\<close>

text \<open>The three kinds of state update \<^verbatim>\<open>afterModel\<close> can return.\<close>

lemma newTaskBlock_cases:
  "newTaskBlock s r = None \<or>
   (\<exists>e. newTaskBlock s r =
      Some \<lparr>upd_contextHistory = contextHistory s @ [e], upd_currentTask = None\<rparr>) \<or>
   (\<exists>e t. newTaskBlock s r =
      Some \<lparr>upd_contextHistory = contextHistory s @ [e], upd_currentTask = Some t\<rparr>)"
  by (cases "feedbackMatch r") (simp_all add: newTaskBlock_def Let_def)

lemma afterModel_cases:
  "afterModel s rt = \<lparr>upd_contextHistory = [], upd_currentTask = Some None\<rparr> \<or>
   (\<exists>e. afterModel s rt = \<lparr>upd_contextHistory = contextHistory s @ [e], upd_currentTask = None\<rparr>) \<or>
   (\<exists>e t. afterModel s rt = \<lparr>upd_contextHistory = contextHistory s @ [e], upd_currentTask = Some t\<rparr>)"
proof -
  define lastName where "lastName = map_option name (at_last (toolCalls rt))"
  define res where "res =
    (case at_last (toolCalls rt) of
       None \<Rightarrow> ''''
     | Some tc \<Rightarrow> (case result tc of None \<Rightarrow> '''' | Some r \<Rightarrow> r))"
  define blk where "blk = (if lastName = Some ''new_task'' then newTaskBlock s res else None)"
  have am: "afterModel s rt =
     (case blk of
        Some u \<Rightarrow> u
      | None \<Rightarrow>
          if lastName = Some ''attempt_completion'' \<and> includes_str res ''y''
          then \<lparr>upd_contextHistory = [], upd_currentTask = Some None\<rparr>
          else \<lparr>upd_contextHistory =
                  contextHistory s @
                    [interpolate lastName @
                       (if hasError res then '': encountered error''
                        else '': completed successfully'')],
                upd_currentTask = None\<rparr>)"
    by (simp only: afterModel_def Let_def blk_def res_def lastName_def)
  show ?thesis
  proof (cases blk)
    case None
    then show ?thesis unfolding am by simp
  next
    case (Some u)
    then have "newTaskBlock s res = Some u" by (simp add: blk_def split: if_splits)
    with newTaskBlock_cases [of s res] Some show ?thesis unfolding am by auto
  qed
qed

lemma afterModel_single:
  "afterModel s \<lparr>toolCalls = [oc]\<rparr> =
     (case (if name oc = ''new_task''
            then newTaskBlock s (case result oc of None \<Rightarrow> '''' | Some r \<Rightarrow> r)
            else None) of
        Some u \<Rightarrow> u
      | None \<Rightarrow>
          if name oc = ''attempt_completion'' \<and>
             includes_str (case result oc of None \<Rightarrow> '''' | Some r \<Rightarrow> r) ''y''
          then \<lparr>upd_contextHistory = [], upd_currentTask = Some None\<rparr>
          else \<lparr>upd_contextHistory =
                  contextHistory s @
                    [name oc @
                       (if hasError (case result oc of None \<Rightarrow> '''' | Some r \<Rightarrow> r)
                        then '': encountered error''
                        else '': completed successfully'')],
                upd_currentTask = None\<rparr>)"
  by (simp add: afterModel_def Let_def at_last_single interpolate_def cong: option.case_cong)

text \<open>Every step appends exactly one entry to the history, or clears it.\<close>

lemma history_grows_or_resets:
  "nextState s oc = emptyState \<or>
   (\<exists>e. contextHistory (nextState s oc) = contextHistory s @ [e])"
  using afterModel_cases [of s "\<lparr>toolCalls = [oc]\<rparr>"]
  by (auto simp: nextState_def applyUpdate_def emptyState_def)

text \<open>
  The history is cleared only by an \<open>attempt_completion\<close> whose result includes \<open>y\<close>; when
  that shortens the history, the user was satisfied and the loop ends.
\<close>

lemma reset_only_on_completion_y:
  "contextHistory (nextState s oc) = [] \<Longrightarrow>
   name oc = ''attempt_completion'' \<and> (\<exists>r. result oc = Some r \<and> CHR ''y'' \<in> set r)"
proof -
  assume a: "contextHistory (nextState s oc) = []"
  define res where "res = (case result oc of None \<Rightarrow> '''' | Some r \<Rightarrow> r)"
  define blk where "blk = (if name oc = ''new_task'' then newTaskBlock s res else None)"
  note am = afterModel_single [of s oc, folded res_def, folded blk_def]
  from a have u: "upd_contextHistory (afterModel s \<lparr>toolCalls = [oc]\<rparr>) = []"
    by (simp add: nextState_def applyUpdate_def)
  have "blk = None"
  proof (cases blk)
    case (Some v)
    then have "newTaskBlock s res = Some v" by (simp add: blk_def split: if_splits)
    with newTaskBlock_cases [of s res] Some u show ?thesis unfolding am by auto
  qed simp
  with u have "name oc = ''attempt_completion'' \<and> includes_str res ''y''"
    unfolding am by (simp split: if_splits)
  then show ?thesis
    by (cases "result oc") (simp_all add: res_def includes_str_single)
qed

lemma history_shrinks_only_when_satisfied:
  assumes "length (contextHistory (nextState s oc)) < length (contextHistory s)"
  shows "isUserSatisfied s \<lparr>toolCalls = [oc]\<rparr> \<and> nextState s oc = emptyState"
proof -
  from history_grows_or_resets [of s oc] assms have e: "nextState s oc = emptyState" by auto
  then have "contextHistory (nextState s oc) = []" by (simp add: emptyState_def)
  from reset_only_on_completion_y [OF this] obtain r where
    "name oc = ''attempt_completion''" "result oc = Some r" "CHR ''y'' \<in> set r" by blast
  moreover from assms have "contextHistory s \<noteq> []" by auto
  ultimately show ?thesis using e by (auto simp: isUserSatisfied_outcome)
qed

text \<open>In a state reached from the empty state, a task that is set has a history.\<close>

lemma task_has_history_step:
  "(currentTask s \<noteq> None \<longrightarrow> contextHistory s \<noteq> []) \<Longrightarrow>
   (currentTask (nextState s oc) \<noteq> None \<longrightarrow> contextHistory (nextState s oc) \<noteq> [])"
  using afterModel_cases [of s "\<lparr>toolCalls = [oc]\<rparr>"]
  by (auto simp: nextState_def applyUpdate_def)

lemma task_has_history_steps:
  "(currentTask s \<noteq> None \<longrightarrow> contextHistory s \<noteq> []) \<Longrightarrow>
   (currentTask (steps s outs) \<noteq> None \<longrightarrow> contextHistory (steps s outs) \<noteq> [])"
proof (induction outs arbitrary: s)
  case Nil
  then show ?case by simp
next
  case (Cons oc outs)
  from task_has_history_step [OF Cons.prems]
  have "currentTask (nextState s oc) \<noteq> None \<longrightarrow> contextHistory (nextState s oc) \<noteq> []" .
  from Cons.IH [OF this] show ?case by simp
qed

lemma reachable_task_has_history:
  "currentTask (steps emptyState outs) \<noteq> None \<Longrightarrow> contextHistory (steps emptyState outs) \<noteq> []"
  using task_has_history_steps [of emptyState outs] by (simp add: emptyState_def)

lemma task_set_step:
  assumes "\<not> malformedConfirmation oc"
  shows "(currentTask (nextState s oc) \<noteq> None) =
     (if acceptedConfirmation oc then True
      else if completionReset oc then False
      else currentTask s \<noteq> None)"
proof (cases "result oc")
  case None
  then show ?thesis
    by (simp add: nextState_def applyUpdate_def afterModel_def newTaskBlock_def
        at_last_single acceptedConfirmation_def completionReset_def Let_def)
next
  case (Some r)
  have inc: "taskMatch r \<noteq> None \<Longrightarrow> includes_str r ''NEW TASK CONFIRMED:''"
    using taskMatch_includes by blast
  show ?thesis
  proof (cases "name oc = ''new_task''")
    case True
    show ?thesis
    proof (cases "includes_str r ''NEW TASK CONFIRMED:''")
      case pre: True
      with assms True Some obtain g where g: "taskMatch r = Some g"
        by (auto simp: malformedConfirmation_def)
      with True Some pre show ?thesis
        by (simp add: nextState_def applyUpdate_def afterModel_def newTaskBlock_def
            at_last_single acceptedConfirmation_def Let_def)
    next
      case npre: False
      with inc have "taskMatch r = None" by blast
      with True Some npre show ?thesis
        by (simp add: nextState_def applyUpdate_def afterModel_def newTaskBlock_def
            at_last_single acceptedConfirmation_def completionReset_def Let_def split: option.splits)
    qed
  next
    case False
    with Some show ?thesis
      by (simp add: nextState_def applyUpdate_def afterModel_def
          at_last_single acceptedConfirmation_def completionReset_def Let_def)
  qed
qed

lemma task_set_iff_unless_malformed:
  "\<forall>oc \<in> set outs. \<not> malformedConfirmation oc \<Longrightarrow>
   (currentTask (steps s outs) \<noteq> None) = spec_taskSet (currentTask s \<noteq> None) outs"
proof (induction outs arbitrary: s)
  case Nil
  then show ?case by simp
next
  case (Cons oc outs)
  then have 1: "\<not> malformedConfirmation oc" and 2: "\<forall>oc \<in> set outs. \<not> malformedConfirmation oc"
    by simp_all
  show ?case
    using Cons.IH [OF 2, of "nextState s oc"] task_set_step [OF 1, of s]
    by simp
qed

lemma reachable_task_set_iff:
  "\<forall>oc \<in> set outs. \<not> malformedConfirmation oc \<Longrightarrow>
   (currentTask (steps emptyState outs) \<noteq> None) = spec_taskSet False outs"
  using task_set_iff_unless_malformed [of outs emptyState] by (simp add: emptyState_def)

text \<open>
  When no outcome is a completion, the loop uses up its bound: after exactly \<open>n\<close>
  iterations it fails with the state those \<open>n\<close> steps reached.
\<close>

lemma run_bound_exceeded:
  "\<forall>oc \<in> set outs. name oc \<noteq> ''attempt_completion'' \<Longrightarrow> n \<le> length outs \<Longrightarrow>
   run n request s outs = LoopBoundExceeded (steps s (take n outs))"
proof (induction n arbitrary: s outs)
  case 0
  then show ?case by simp
next
  case (Suc n)
  then obtain oc rest where outs: "outs = oc # rest" by (cases outs) auto
  with Suc.prems have ns: "\<not> isUserSatisfied s \<lparr>toolCalls = [oc]\<rparr>"
    by (simp add: isUserSatisfied_def at_last_single)
  from Suc.prems outs have "\<forall>oc \<in> set rest. name oc \<noteq> ''attempt_completion''" "n \<le> length rest"
    by simp_all
  from Suc.IH [OF this] ns outs show ?case by (simp add: run_step del: run.simps)
qed

section \<open>Facts about the suspension protocol\<close>

text \<open>The reply the loop accepts is never blank.\<close>

lemma promptResponse_not_blank:
  "promptResponse label replies = Some (r, rest) \<Longrightarrow> trim r \<noteq> []"
proof (induction replies)
  case Nil
  then show ?case by simp
next
  case (Cons response replies)
  have n: "trim ''N'' \<noteq> []" by (simp add: trim_def isWhiteSpace_def)
  from Cons n show ?case by (auto split: if_splits)
qed

text \<open>
  The loop returns as soon as a reply is not blank, and on the first reply when the label
  asks a yes/no question.
\<close>

lemma promptResponse_returns:
  "(\<exists>response \<in> set replies. trim response \<noteq> []) \<or>
   (replies \<noteq> [] \<and> includes_str label ''y/N'') \<Longrightarrow>
   \<exists>r rest. promptResponse label replies = Some (r, rest)"
proof (induction replies)
  case Nil
  then show ?case by simp
next
  case (Cons response replies)
  show ?case
  proof (cases "trim response = []")
    case False
    then show ?thesis by simp
  next
    case blank: True
    show ?thesis
    proof (cases "includes_str label ''y/N''")
      case True
      with blank show ?thesis by simp
    next
      case False
      with Cons.prems blank have "\<exists>response \<in> set replies. trim response \<noteq> []" by auto
      with Cons.IH have "\<exists>r rest. promptResponse label replies = Some (r, rest)" by blast
      with blank False show ?thesis by simp
    qed
  qed
qed

section \<open>The claims\<close>

text \<open>
  C1. For every Session State with a non-empty \<open>contextHistory\<close>, an \<open>attempt_completion\<close>
  outcome whose result text is \<open>y\<close> resets the state to the empty state (no history, no
  current task) and the loop terminates: the transition yields the empty state together
  with the terminating directive, the run stops there with the empty state whatever
  outcomes would follow, and it has applied exactly one transition, the reset. This is the
  only way the loop finishes: a run that finishes stopped at an \<open>attempt_completion\<close>
  outcome with an affirmative result, met with a non-empty history.
\<close>

theorem satisfied_completion_resets_and_terminates:
  "(contextHistory s \<noteq> [] \<longrightarrow>
      afterModel s
        \<lparr>toolCalls = calls @ [\<lparr>name = ''attempt_completion'', result = Some ''y''\<rparr>]\<rparr> =
        \<lparr>upd_contextHistory = [], upd_currentTask = Some None\<rparr> \<and>
      transition request s \<lparr>name = ''attempt_completion'', result = Some ''y''\<rparr> =
        (emptyState,
         request\<lparr>tools := [],
                 systemPrompt :=
                   PlainText ''Task has been completed successfully. No further actions needed.'',
                 toolChoice := ToolChoiceNone\<rparr>) \<and>
      run (Suc n) request s (\<lparr>name = ''attempt_completion'', result = Some ''y''\<rparr> # rest) =
        Finished emptyState \<and>
      trace (Suc n) request s (\<lparr>name = ''attempt_completion'', result = Some ''y''\<rparr> # rest) =
        [emptyState]) \<and>
   (run k request t outs = Finished t' \<longrightarrow>
      (\<exists>pre oc post r. outs = pre @ oc # post \<and>
         contextHistory (steps t pre) \<noteq> [] \<and>
         name oc = ''attempt_completion'' \<and> result oc = Some r \<and>
         (CHR ''y'' \<in> set r \<or> CHR ''Y'' \<in> set r) \<and>
         t' = nextState (steps t pre) oc))"
proof (intro conjI impI)
  let ?oc = "\<lparr>name = ''attempt_completion'', result = Some ''y''\<rparr>"
  assume h: "contextHistory s \<noteq> []"
  have sat: "isUserSatisfied s \<lparr>toolCalls = [?oc]\<rparr>"
    using h by (simp add: isUserSatisfied_outcome)
  have nxt: "nextState s ?oc = emptyState"
    by (simp add: nextState_completion_y)
  have "afterModel s \<lparr>toolCalls = [?oc]\<rparr> =
        \<lparr>upd_contextHistory = [], upd_currentTask = Some None\<rparr>"
    by (simp add: afterModel_def at_last_single)
  then show "afterModel s \<lparr>toolCalls = calls @ [?oc]\<rparr> =
        \<lparr>upd_contextHistory = [], upd_currentTask = Some None\<rparr>"
    by (simp only: afterModel_last)
  show "transition request s ?oc =
        (emptyState,
         request\<lparr>tools := [],
                 systemPrompt :=
                   PlainText ''Task has been completed successfully. No further actions needed.'',
                 toolChoice := ToolChoiceNone\<rparr>)"
    using sat nxt by (simp add: transition_def modifyModelRequest_def)
  show "run (Suc n) request s (?oc # rest) = Finished emptyState"
    using sat nxt by (simp add: run_step del: run.simps)
  show "trace (Suc n) request s (?oc # rest) = [emptyState]"
    using sat nxt by (simp add: trace_step del: trace.simps)
next
  assume "run k request t outs = Finished t'"
  from run_Finished_only_if [OF this] obtain pre oc post where
    p: "outs = pre @ oc # post" "isUserSatisfied (steps t pre) \<lparr>toolCalls = [oc]\<rparr>"
       "t' = nextState (steps t pre) oc" by blast
  from p(2) obtain r where "contextHistory (steps t pre) \<noteq> []" "name oc = ''attempt_completion''"
    "result oc = Some r" "CHR ''y'' \<in> set r \<or> CHR ''Y'' \<in> set r"
    by (auto simp: isUserSatisfied_outcome)
  with p(1,3) show "\<exists>pre oc post r. outs = pre @ oc # post \<and>
         contextHistory (steps t pre) \<noteq> [] \<and>
         name oc = ''attempt_completion'' \<and> result oc = Some r \<and>
         (CHR ''y'' \<in> set r \<or> CHR ''Y'' \<in> set r) \<and>
         t' = nextState (steps t pre) oc" by blast
qed

theorem satisfied_completion_resets_and_terminates_witness:
  "run (Suc (Suc 0))
     \<lparr>tools = [''read_file'', ''attempt_completion''], systemPrompt = PlainText ''agent'',
      toolChoice = ToolChoiceAuto\<rparr>
     \<lparr>contextHistory = [''Started task: fix bug''], currentTask = Some ''fix bug''\<rparr>
     [\<lparr>name = ''attempt_completion'', result = Some ''y''\<rparr>,
      \<lparr>name = ''read_file'', result = Some ''File: a.ts''\<rparr>] = Finished emptyState \<and>
   trace (Suc (Suc 0))
     \<lparr>tools = [''read_file'', ''attempt_completion''], systemPrompt = PlainText ''agent'',
      toolChoice = ToolChoiceAuto\<rparr>
     \<lparr>contextHistory = [''Started task: fix bug''], currentTask = Some ''fix bug''\<rparr>
     [\<lparr>name = ''attempt_completion'', result = Some ''y''\<rparr>,
      \<lparr>name = ''read_file'', result = Some ''File: a.ts''\<rparr>] = [emptyState] \<and>
   (\<exists>pre oc post r.
      [\<lparr>name = ''attempt_completion'', result = Some ''y''\<rparr>,
       \<lparr>name = ''read_file'', result = Some ''File: a.ts''\<rparr>] = pre @ oc # post \<and>
      contextHistory
        (steps \<lparr>contextHistory = [''Started task: fix bug''], currentTask = Some ''fix bug''\<rparr> pre)
        \<noteq> [] \<and>
      name oc = ''attempt_completion'' \<and> result oc = Some r \<and>
      (CHR ''y'' \<in> set r \<or> CHR ''Y'' \<in> set r) \<and>
      emptyState =
        nextState
          (steps \<lparr>contextHistory = [''Started task: fix bug''], currentTask = Some ''fix bug''\<rparr> pre)
          oc)"
proof -
  let ?req = "\<lparr>tools = [''read_file'', ''attempt_completion''], systemPrompt = PlainText ''agent'',
      toolChoice = ToolChoiceAuto\<rparr>"
  let ?s = "\<lparr>contextHistory = [''Started task: fix bug''], currentTask = Some ''fix bug''\<rparr>"
  let ?rest = "[\<lparr>name = ''read_file'', result = Some ''File: a.ts''\<rparr>]"
  let ?outs = "\<lparr>name = ''attempt_completion'', result = Some ''y''\<rparr> # ?rest"
  have h: "contextHistory ?s \<noteq> []" by simp
  note th = satisfied_completion_resets_and_terminates
    [where s = ?s and request = ?req and n = "Suc 0" and rest = ?rest and k = "Suc (Suc 0)"
      and t = ?s and outs = ?outs and t' = emptyState]
  from th h have r: "run (Suc (Suc 0)) ?req ?s ?outs = Finished emptyState"
    and t: "trace (Suc (Suc 0)) ?req ?s ?outs = [emptyState]"
    by blast+
  from th r show ?thesis using t by blast
qed

text \<open>
  C2. An \<open>attempt_completion\<close> outcome counts as affirmative satisfaction if and only if its
  result text contains the letter \<open>y\<close> in either case, anywhere: with a non-empty history,
  \<open>isUserSatisfied\<close> holds exactly when \<open>y\<close> or \<open>Y\<close> occurs in the result. So \<open>yes\<close>,
  \<open>why not\<close> and \<open>maybe\<close> are affirmative, and \<open>N\<close> is not.
\<close>

theorem affirmative_iff_contains_y:
  "contextHistory s \<noteq> [] \<Longrightarrow>
   (isUserSatisfied s \<lparr>toolCalls = calls @ [\<lparr>name = ''attempt_completion'', result = Some r\<rparr>]\<rparr>
      \<longleftrightarrow> CHR ''y'' \<in> set r \<or> CHR ''Y'' \<in> set r) \<and>
   isUserSatisfied s \<lparr>toolCalls = calls @ [\<lparr>name = ''attempt_completion'', result = Some ''yes''\<rparr>]\<rparr> \<and>
   isUserSatisfied s \<lparr>toolCalls = calls @ [\<lparr>name = ''attempt_completion'', result = Some ''why not''\<rparr>]\<rparr> \<and>
   isUserSatisfied s \<lparr>toolCalls = calls @ [\<lparr>name = ''attempt_completion'', result = Some ''maybe''\<rparr>]\<rparr> \<and>
   \<not> isUserSatisfied s \<lparr>toolCalls = calls @ [\<lparr>name = ''attempt_completion'', result = Some ''N''\<rparr>]\<rparr>"
  by (simp add: isUserSatisfied_last)

theorem affirmative_iff_contains_y_witness:
  "isUserSatisfied \<lparr>contextHistory = [''read_file: completed successfully''], currentTask = None\<rparr>
     \<lparr>toolCalls = [\<lparr>name = ''attempt_completion'', result = Some ''Okay''\<rparr>]\<rparr> \<and>
   \<not> isUserSatisfied \<lparr>contextHistory = [''read_file: completed successfully''], currentTask = None\<rparr>
     \<lparr>toolCalls = [\<lparr>name = ''attempt_completion'', result = Some ''no''\<rparr>]\<rparr>"
  using affirmative_iff_contains_y
      [of "\<lparr>contextHistory = [''read_file: completed successfully''], currentTask = None\<rparr>"
        "[]" "''Okay''"]
    affirmative_iff_contains_y
      [of "\<lparr>contextHistory = [''read_file: completed successfully''], currentTask = None\<rparr>"
        "[]" "''no''"]
  by simp

text \<open>
  C3. An \<open>attempt_completion\<close> outcome with result \<open>y\<close> that arrives when \<open>contextHistory\<close> is
  empty does not terminate the loop: the directive does not signal termination, the run
  goes on with the remaining outcomes, and however often the answer \<open>y\<close> is repeated the
  run never finishes. The satisfied branch is taken only when the history is non-empty.
\<close>

theorem no_termination_on_empty_history:
  "(contextHistory s = [] \<longrightarrow>
      \<not> signalsTermination
          (snd (transition request s \<lparr>name = ''attempt_completion'', result = Some ''y''\<rparr>)) \<and>
      run (Suc n) request s (\<lparr>name = ''attempt_completion'', result = Some ''y''\<rparr> # rest) =
        run n request emptyState rest \<and>
      run m request s (replicate k \<lparr>name = ''attempt_completion'', result = Some ''y''\<rparr>) \<noteq>
        Finished s') \<and>
   (isUserSatisfied t rt \<longrightarrow> contextHistory t \<noteq> [])"
proof (intro conjI impI)
  assume h: "contextHistory s = []"
  show "\<not> signalsTermination
          (snd (transition request s \<lparr>name = ''attempt_completion'', result = Some ''y''\<rparr>))"
    using h by (simp add: signalsTermination_transition not_satisfied_empty_history)
  show "run (Suc n) request s (\<lparr>name = ''attempt_completion'', result = Some ''y''\<rparr> # rest) =
        run n request emptyState rest"
    using h by (simp add: run_step not_satisfied_empty_history nextState_completion_y del: run.simps)
  show "run m request s (replicate k \<lparr>name = ''attempt_completion'', result = Some ''y''\<rparr>) \<noteq>
        Finished s'"
    using h by (rule run_yes_empty_history)
next
  assume "isUserSatisfied t rt"
  then show "contextHistory t \<noteq> []" by (auto simp: isUserSatisfied_def)
qed

theorem no_termination_on_empty_history_witness:
  "\<not> signalsTermination
      (snd (transition
             \<lparr>tools = [''attempt_completion''], systemPrompt = PlainText ''agent'',
              toolChoice = ToolChoiceAuto\<rparr>
             emptyState \<lparr>name = ''attempt_completion'', result = Some ''y''\<rparr>)) \<and>
   run (Suc (Suc 0))
     \<lparr>tools = [''attempt_completion''], systemPrompt = PlainText ''agent'',
      toolChoice = ToolChoiceAuto\<rparr>
     emptyState [\<lparr>name = ''attempt_completion'', result = Some ''y''\<rparr>] =
     AwaitingOutcome emptyState \<and>
   contextHistory \<lparr>contextHistory = [''list_files: completed successfully''], currentTask = None\<rparr>
     \<noteq> []"
proof -
  let ?req = "\<lparr>tools = [''attempt_completion''], systemPrompt = PlainText ''agent'',
      toolChoice = ToolChoiceAuto\<rparr>"
  let ?t = "\<lparr>contextHistory = [''list_files: completed successfully''], currentTask = None\<rparr>"
  let ?rt = "\<lparr>toolCalls = [\<lparr>name = ''attempt_completion'', result = Some ''yes''\<rparr>]\<rparr>"
  have h: "contextHistory emptyState = []" by (simp add: emptyState_def)
  have sat: "isUserSatisfied ?t ?rt"
    by (simp add: isUserSatisfied_def at_last_def toLowerCase_def toLowerChar_def)
  note th = no_termination_on_empty_history
    [where s = emptyState and request = ?req and n = "Suc 0" and rest = "[]" and t = ?t
      and rt = ?rt]
  from th h sat show ?thesis by simp
qed

text \<open>
  C4. Over the states reached from the empty state, \<open>currentTask\<close> is claimed to be set
  exactly when a confirmation has been accepted and no reset has followed, and the history
  to grow by at most one entry a step and to be cleared only on a satisfied completion.
  The code breaks the first part: after the accepted confirmation
  \<open>NEW TASK CONFIRMED: task_7 - "fix bug"\<close> the task is set, and a following \<open>new_task\<close>
  result \<open>NEW TASK CONFIRMED: task_8\<close>, which is no confirmation and no completion, leaves
  the state without a task, while by the invariant's words (\<open>spec_taskSet\<close>) a task is
  active. Without malformed confirmations the invariant holds (lemma
  \<open>reachable_task_set_iff\<close>); the part on the history holds as it stands (lemmas
  \<open>history_grows_or_resets\<close>, \<open>history_shrinks_only_when_satisfied\<close>).
\<close>

theorem task_lost_without_reset:
  \<open>steps emptyState
     [\<lparr>name = ''new_task'', result = Some ''NEW TASK CONFIRMED: task_7 - "fix bug"''\<rparr>] =
     \<lparr>contextHistory = [''Started task: fix bug''], currentTask = Some ''fix bug''\<rparr> \<and>
   steps emptyState
     [\<lparr>name = ''new_task'', result = Some ''NEW TASK CONFIRMED: task_7 - "fix bug"''\<rparr>,
      \<lparr>name = ''new_task'', result = Some ''NEW TASK CONFIRMED: task_8''\<rparr>] =
     \<lparr>contextHistory = [''Started task: fix bug'', ''Started task: undefined''],
      currentTask = None\<rparr> \<and>
   spec_taskSet False
     [\<lparr>name = ''new_task'', result = Some ''NEW TASK CONFIRMED: task_7 - "fix bug"''\<rparr>,
      \<lparr>name = ''new_task'', result = Some ''NEW TASK CONFIRMED: task_8''\<rparr>]\<close>
proof -
  have m: "taskMatch ''NEW TASK CONFIRMED: task_8'' = None"
    by (simp add: taskMatch_def taskMatchAt_def isDigit_def)
  have sp: \<open>spec_taskSet False
     [\<lparr>name = ''new_task'', result = Some ''NEW TASK CONFIRMED: task_7 - "fix bug"''\<rparr>,
      \<lparr>name = ''new_task'', result = Some ''NEW TASK CONFIRMED: task_8''\<rparr>]\<close>
  proof -
    have a1: \<open>acceptedConfirmation
        \<lparr>name = ''new_task'', result = Some ''NEW TASK CONFIRMED: task_7 - "fix bug"''\<rparr>\<close>
      by (simp add: acceptedConfirmation_def taskMatch_example)
    have a2: \<open>\<not> acceptedConfirmation
        \<lparr>name = ''new_task'', result = Some ''NEW TASK CONFIRMED: task_8''\<rparr>\<close>
      by (simp add: acceptedConfirmation_def m)
    have c2: \<open>\<not> completionReset
        \<lparr>name = ''new_task'', result = Some ''NEW TASK CONFIRMED: task_8''\<rparr>\<close>
      by (simp add: completionReset_def)
    show ?thesis by (simp add: a1 a2 c2)
  qed
  have 1: \<open>nextState emptyState
      \<lparr>name = ''new_task'', result = Some ''NEW TASK CONFIRMED: task_7 - "fix bug"''\<rparr> =
      \<lparr>contextHistory = [''Started task: fix bug''], currentTask = Some ''fix bug''\<rparr>\<close>
    by (simp add: confirmation_sets_task [OF _ taskMatch_example] emptyState_def)
  have 2: "nextState \<lparr>contextHistory = [''Started task: fix bug''], currentTask = Some ''fix bug''\<rparr>
      \<lparr>name = ''new_task'', result = Some ''NEW TASK CONFIRMED: task_8''\<rparr> =
      \<lparr>contextHistory = [''Started task: fix bug'', ''Started task: undefined''],
       currentTask = None\<rparr>"
    by (simp add: malformed_confirmation [OF _ m])
  have st1: \<open>steps emptyState
     [\<lparr>name = ''new_task'', result = Some ''NEW TASK CONFIRMED: task_7 - "fix bug"''\<rparr>] =
     \<lparr>contextHistory = [''Started task: fix bug''], currentTask = Some ''fix bug''\<rparr>\<close>
    by (simp add: 1)
  have st2: \<open>steps emptyState
     [\<lparr>name = ''new_task'', result = Some ''NEW TASK CONFIRMED: task_7 - "fix bug"''\<rparr>,
      \<lparr>name = ''new_task'', result = Some ''NEW TASK CONFIRMED: task_8''\<rparr>] =
     \<lparr>contextHistory = [''Started task: fix bug'', ''Started task: undefined''],
      currentTask = None\<rparr>\<close>
    by (simp add: 1 2)
  show ?thesis by (intro conjI) (rule st1, rule st2, rule sp)
qed

text \<open>
  C5. For every prior state, a \<open>new_task\<close> outcome whose result is exactly
  \<open>NEW TASK CONFIRMED: task_7 - "fix bug"\<close> gives a next state whose \<open>currentTask\<close> is
  \<open>fix bug\<close> and whose history is the prior history followed by the one entry
  \<open>Started task: fix bug\<close>: this is the object \<^verbatim>\<open>afterModel\<close> returns, whatever tool
  calls came before, and the state it is merged into.
\<close>

theorem confirmed_task_is_set:
  \<open>afterModel s
     \<lparr>toolCalls = calls @
        [\<lparr>name = ''new_task'', result = Some ''NEW TASK CONFIRMED: task_7 - "fix bug"''\<rparr>]\<rparr> =
     \<lparr>upd_contextHistory = contextHistory s @ [''Started task: fix bug''],
      upd_currentTask = Some (Some ''fix bug'')\<rparr> \<and>
   nextState s \<lparr>name = ''new_task'', result = Some ''NEW TASK CONFIRMED: task_7 - "fix bug"''\<rparr> =
     \<lparr>contextHistory = contextHistory s @ [''Started task: fix bug''],
      currentTask = Some ''fix bug''\<rparr>\<close>
proof -
  have u: \<open>afterModel s
      \<lparr>toolCalls = [\<lparr>name = ''new_task'', result = Some ''NEW TASK CONFIRMED: task_7 - "fix bug"''\<rparr>]\<rparr> =
      \<lparr>upd_contextHistory = contextHistory s @ [''Started task: fix bug''],
       upd_currentTask = Some (Some ''fix bug'')\<rparr>\<close>
    by (simp add: afterModel_def at_last_single newTaskBlock_def taskMatch_example
        interpolate_def)
  show ?thesis by (simp add: afterModel_last u nextState_def applyUpdate_def)
qed

text \<open>
  C6. For every prior state, a \<open>new_task\<close> outcome whose result is
  \<open>TASK FEEDBACK: "not that task"\<close> leaves \<open>currentTask\<close> as it was, set or absent, and
  appends exactly the entry \<open>Task feedback: not that task\<close> to the history: the object
  \<^verbatim>\<open>afterModel\<close> returns has no \<open>currentTask\<close> key.
\<close>

theorem feedback_keeps_task:
  \<open>afterModel s
     \<lparr>toolCalls = calls @
        [\<lparr>name = ''new_task'', result = Some ''TASK FEEDBACK: "not that task"''\<rparr>]\<rparr> =
     \<lparr>upd_contextHistory = contextHistory s @ [''Task feedback: not that task''],
      upd_currentTask = None\<rparr> \<and>
   nextState s \<lparr>name = ''new_task'', result = Some ''TASK FEEDBACK: "not that task"''\<rparr> =
     \<lparr>contextHistory = contextHistory s @ [''Task feedback: not that task''],
      currentTask = currentTask s\<rparr>\<close>
proof -
  have u: \<open>afterModel s
      \<lparr>toolCalls = [\<lparr>name = ''new_task'', result = Some ''TASK FEEDBACK: "not that task"''\<rparr>]\<rparr> =
      \<lparr>upd_contextHistory = contextHistory s @ [''Task feedback: not that task''],
       upd_currentTask = None\<rparr>\<close>
    by (simp add: afterModel_def at_last_single newTaskBlock_def feedbackMatch_example)
  show ?thesis by (simp add: afterModel_last u nextState_def applyUpdate_def)
qed

text \<open>
  C7. A \<open>new_task\<close> outcome whose result matches neither the confirmation pattern nor the
  feedback pattern is claimed to fall through to the generic note, leaving \<open>currentTask\<close>
  unchanged, also when the result contains \<open>NEW TASK CONFIRMED:\<close>. The code does not do
  that: with a task active, the result \<open>NEW TASK CONFIRMED: nothing\<close> matches neither
  pattern, and the next state has lost its task and gained the entry
  \<open>Started task: undefined\<close>.
\<close>

theorem malformed_confirmation_clears_task:
  "taskMatch ''NEW TASK CONFIRMED: nothing'' = None \<and>
   feedbackMatch ''NEW TASK CONFIRMED: nothing'' = None \<and>
   nextState \<lparr>contextHistory = [''Started task: fix bug''], currentTask = Some ''fix bug''\<rparr>
     \<lparr>name = ''new_task'', result = Some ''NEW TASK CONFIRMED: nothing''\<rparr> =
     \<lparr>contextHistory = [''Started task: fix bug'', ''Started task: undefined''],
      currentTask = None\<rparr>"
proof -
  have m: "taskMatch ''NEW TASK CONFIRMED: nothing'' = None"
    by (simp add: taskMatch_def taskMatchAt_def)
  have f: "feedbackMatch ''NEW TASK CONFIRMED: nothing'' = None"
    by (simp add: feedbackMatch_def feedbackMatchAt_def)
  show ?thesis by (simp add: m f malformed_confirmation [OF _ m])
qed

text \<open>
  C8. Every action or question outcome, and every \<open>new_task\<close> outcome that matches neither
  pattern, is claimed to append one entry, \<open><identifier>: encountered error\<close> when the
  result holds \<open>Error:\<close> or \<open>does not exist\<close> and \<open><identifier>: completed successfully\<close>
  otherwise. For action and question outcomes the code does so (lemma
  \<open>action_question_entry\<close>), and for \<open>new_task\<close> results without the confirmation prefix
  too (lemma \<open>new_task_fall_through\<close>). For the unmatched \<open>new_task\<close> result
  \<open>NEW TASK CONFIRMED: Error: task does not exist\<close>, which holds both markers, the entry
  appended is \<open>Started task: undefined\<close>.
\<close>

theorem malformed_confirmation_entry:
  "taskMatch ''NEW TASK CONFIRMED: Error: task does not exist'' = None \<and>
   feedbackMatch ''NEW TASK CONFIRMED: Error: task does not exist'' = None \<and>
   hasError ''NEW TASK CONFIRMED: Error: task does not exist'' \<and>
   nextState emptyState
     \<lparr>name = ''new_task'', result = Some ''NEW TASK CONFIRMED: Error: task does not exist''\<rparr> =
     \<lparr>contextHistory = [''Started task: undefined''], currentTask = None\<rparr>"
proof -
  have m: "taskMatch ''NEW TASK CONFIRMED: Error: task does not exist'' = None"
    by (simp add: taskMatch_def taskMatchAt_def)
  have f: "feedbackMatch ''NEW TASK CONFIRMED: Error: task does not exist'' = None"
    by (simp add: feedbackMatch_def feedbackMatchAt_def)
  have e: "hasError ''NEW TASK CONFIRMED: Error: task does not exist''"
    by (simp add: hasError_def)
  show ?thesis by (simp add: m f e malformed_confirmation [OF _ m] emptyState_def)
qed

text \<open>
  C9. In the suspension protocol, a reply that is empty or all white space is not
  accepted: the question is asked again and the next reply decides, unless the label of
  the interrupt contains \<open>y/N\<close>, in which case the blank reply is taken as the answer \<open>N\<close>.
  A reply that is not blank is accepted as it was typed.
\<close>

theorem blank_reply_reprompted_or_defaulted:
  "(trim response = [] \<longleftrightarrow> (\<forall>c \<in> set response. isWhiteSpace c)) \<and>
   (trim response = [] \<and> \<not> includes_str label ''y/N'' \<longrightarrow>
      promptResponse label (response # replies) = promptResponse label replies) \<and>
   (trim response = [] \<and> includes_str label ''y/N'' \<longrightarrow>
      promptResponse label (response # replies) = Some (''N'', replies)) \<and>
   (trim response \<noteq> [] \<longrightarrow>
      promptResponse label (response # replies) = Some (response, replies))"
  by (simp add: trim_empty_iff)

theorem blank_reply_reprompted_or_defaulted_witness:
  "promptResponse ''Please provide clarification: '' ['' '', ''use src/index.ts''] =
     promptResponse ''Please provide clarification: '' [''use src/index.ts''] \<and>
   promptResponse ''Are you satisfied with these results? (y/N): '' ['''', ''later''] =
     Some (''N'', [''later'']) \<and>
   promptResponse ''Please provide clarification: '' [''use src/index.ts'', ''more''] =
     Some (''use src/index.ts'', [''more''])"
proof -
  have b1: "trim '' '' = []" by (simp add: trim_def isWhiteSpace_def)
  have b2: "trim '''' = []" by (simp add: trim_def)
  have b3: "trim ''use src/index.ts'' \<noteq> []" by (simp add: trim_def isWhiteSpace_def)
  have l1: "\<not> includes_str ''Please provide clarification: '' ''y/N''" by simp
  have l2: "includes_str ''Are you satisfied with these results? (y/N): '' ''y/N''" by simp
  from blank_reply_reprompted_or_defaulted
      [of "'' ''" "''Please provide clarification: ''" "[''use src/index.ts'']"] b1 l1
  have 1: "promptResponse ''Please provide clarification: '' ['' '', ''use src/index.ts''] =
     promptResponse ''Please provide clarification: '' [''use src/index.ts'']" by blast
  from blank_reply_reprompted_or_defaulted
      [of "''''" "''Are you satisfied with these results? (y/N): ''" "[''later'']"] b2 l2
  have 2: "promptResponse ''Are you satisfied with these results? (y/N): '' ['''', ''later''] =
     Some (''N'', [''later''])" by blast
  from blank_reply_reprompted_or_defaulted
      [of "''use src/index.ts''" "''Please provide clarification: ''" "[''more'']"] b3
  have 3: "promptResponse ''Please provide clarification: '' [''use src/index.ts'', ''more''] =
     Some (''use src/index.ts'', [''more''])" by blast
  from 1 2 3 show ?thesis by blast
qed

text \<open>
  C10. The termination test lowers the case of the result before it looks for \<open>y\<close>; the
  reset test of \<open>afterModel\<close> looks for \<open>y\<close> in the result as it is. So for an
  \<open>attempt_completion\<close> outcome met with a non-empty history whose result has an upper-case
  \<open>Y\<close> and no lower-case \<open>y\<close>, the loop terminates as satisfied while the state is not
  cleared: the generic entry for \<open>attempt_completion\<close> is appended and \<open>currentTask\<close> stays
  as it was. For the result \<open>Y\<close> the entry is \<open>attempt_completion: completed successfully\<close>.
\<close>

theorem uppercase_yes_terminates_without_reset:
  "contextHistory s \<noteq> [] \<Longrightarrow> CHR ''Y'' \<in> set r \<Longrightarrow> CHR ''y'' \<notin> set r \<Longrightarrow>
   isUserSatisfied s \<lparr>toolCalls = [\<lparr>name = ''attempt_completion'', result = Some r\<rparr>]\<rparr> \<and>
   signalsTermination
     (snd (transition request s \<lparr>name = ''attempt_completion'', result = Some r\<rparr>)) \<and>
   afterModel s \<lparr>toolCalls = [\<lparr>name = ''attempt_completion'', result = Some r\<rparr>]\<rparr> =
     \<lparr>upd_contextHistory = contextHistory s @
        [''attempt_completion'' @ (if hasError r then '': encountered error''
                                   else '': completed successfully'')],
      upd_currentTask = None\<rparr> \<and>
   nextState s \<lparr>name = ''attempt_completion'', result = Some r\<rparr> =
     \<lparr>contextHistory = contextHistory s @
        [''attempt_completion'' @ (if hasError r then '': encountered error''
                                   else '': completed successfully'')],
      currentTask = currentTask s\<rparr> \<and>
   run (Suc n) request s (\<lparr>name = ''attempt_completion'', result = Some r\<rparr> # rest) =
     Finished (nextState s \<lparr>name = ''attempt_completion'', result = Some r\<rparr>) \<and>
   nextState s \<lparr>name = ''attempt_completion'', result = Some r\<rparr> \<noteq> emptyState \<and>
   nextState s \<lparr>name = ''attempt_completion'', result = Some ''Y''\<rparr> =
     \<lparr>contextHistory = contextHistory s @ [''attempt_completion: completed successfully''],
      currentTask = currentTask s\<rparr>"
  by (simp add: signalsTermination_transition isUserSatisfied_outcome run_step
      nextState_def afterModel_def at_last_single includes_str_single applyUpdate_def
      interpolate_def emptyState_def hasError_def del: run.simps)

theorem uppercase_yes_terminates_without_reset_witness:
  "run (Suc 0)
     \<lparr>tools = [''attempt_completion''], systemPrompt = PlainText ''agent'',
      toolChoice = ToolChoiceAuto\<rparr>
     \<lparr>contextHistory = [''Started task: fix bug''], currentTask = Some ''fix bug''\<rparr>
     [\<lparr>name = ''attempt_completion'', result = Some ''Y''\<rparr>] =
     Finished
       \<lparr>contextHistory = [''Started task: fix bug'', ''attempt_completion: completed successfully''],
        currentTask = Some ''fix bug''\<rparr>"
proof -
  let ?req = "\<lparr>tools = [''attempt_completion''], systemPrompt = PlainText ''agent'',
      toolChoice = ToolChoiceAuto\<rparr>"
  let ?s = "\<lparr>contextHistory = [''Started task: fix bug''], currentTask = Some ''fix bug''\<rparr>"
  let ?oc = "\<lparr>name = ''attempt_completion'', result = Some ''Y''\<rparr>"
  have h: "contextHistory ?s \<noteq> []" by simp
  have y1: "CHR ''Y'' \<in> set ''Y''" by simp
  have y2: "CHR ''y'' \<notin> set ''Y''" by simp
  note th = uppercase_yes_terminates_without_reset
    [where s = ?s and r = "''Y''" and n = 0 and rest = "[]" and request = ?req, OF h y1 y2]
  from th have r: "run (Suc 0) ?req ?s [?oc] = Finished (nextState ?s ?oc)" by blast
  from th have e: "nextState ?s ?oc =
      \<lparr>contextHistory = contextHistory ?s @ [''attempt_completion: completed successfully''],
       currentTask = currentTask ?s\<rparr>" by blast
  show ?thesis unfolding r e by simp
qed

end
